theory Spec2Isabelle
  imports Main "HOL-Library.Sublist" "HOL-Library.Multiset"
begin

section \<open>Strings\<close>

text \<open>
  Python \<open>str\<close> values are modelled as \<open>string\<close> (lists of 8-bit characters), read as
  code points below 256. On that range \<open>\d\<close> matches exactly the ASCII digits and
  \<open>str.isspace\<close> holds exactly for the twelve characters listed in \<open>isspace\<close>.
  Python integers that are never negative here (line numbers, section numbers, lengths)
  are \<open>nat\<close>; \<open>current_step\<close> is an \<open>int\<close>.
\<close>

datatype py_error = AttributeError

text \<open>\<open>str.isspace\<close> for one character.\<close>

definition isspace :: "char \<Rightarrow> bool" where
  "isspace c = (c \<in> set [CHR 0x09, CHR 0x0A, CHR 0x0B, CHR 0x0C, CHR 0x0D,
                           CHR 0x1C, CHR 0x1D, CHR 0x1E, CHR 0x1F, CHR 0x20,
                           CHR 0x85, CHR 0xA0])"

text \<open>\<open>s.strip()\<close>: leading and trailing whitespace removed.\<close>

definition strip :: "string \<Rightarrow> string" where
  "strip s = rev (dropWhile isspace (rev (dropWhile isspace s)))"

text \<open>\<open>s.split('\n')\<close>: always at least one piece.\<close>

fun split_nl :: "string \<Rightarrow> string list" where
  "split_nl [] = [[]]"
| "split_nl (c # cs) =
     (if c = CHR 0x0A then [] # split_nl cs
      else (case split_nl cs of
              [] \<Rightarrow> [[c]]
            | l # ls \<Rightarrow> (c # l) # ls))"

text \<open>\<open>s.find(sub)\<close>: the least index at which \<open>sub\<close> occurs, \<open>None\<close> for Python's -1.\<close>

fun str_find :: "string \<Rightarrow> string \<Rightarrow> nat option" where
  "str_find sub [] = (if sub = [] then Some 0 else None)"
| "str_find sub (c # cs) =
     (if prefix sub (c # cs) then Some 0 else map_option Suc (str_find sub cs))"

text \<open>\<open>s.find(sub, start)\<close> for \<open>start \<le> len(s)\<close>.\<close>

definition str_find_from :: "string \<Rightarrow> string \<Rightarrow> nat \<Rightarrow> nat option" where
  "str_find_from sub s start = map_option (\<lambda>i. i + start) (str_find sub (drop start s))"

text \<open>\<open>s[a:b]\<close> for indices within the string.\<close>

definition slice :: "string \<Rightarrow> nat \<Rightarrow> nat \<Rightarrow> string" where
  "slice s a b = take (b - a) (drop a s)"

definition is_digit :: "char \<Rightarrow> bool" where
  "is_digit c = (c \<in> set ''0123456789'')"

text \<open>The character class \<open>[a-zA-Z0-9_-]\<close>.\<close>

definition is_name_char :: "char \<Rightarrow> bool" where
  "is_name_char c =
     (c \<in> set ''abcdefghijklmnopqrstuvwxyzABCDEFGHIJKLMNOPQRSTUVWXYZ0123456789_-'')"

text \<open>\<open>int(ds)\<close> for a string of decimal digits.\<close>

definition digit_val :: "char \<Rightarrow> nat" where
  "digit_val c = of_char c - 48"

definition int_of_digits :: "string \<Rightarrow> nat" where
  "int_of_digits ds = foldl (\<lambda>a c. 10 * a + digit_val c) 0 ds"

text \<open>\<open>str(n)\<close> and the format \<open>{n:02d}\<close> for a natural number.\<close>

fun str_nat :: "nat \<Rightarrow> string" where
  "str_nat n =
     (if n < 10 then [''0123456789'' ! n]
      else str_nat (n div 10) @ [''0123456789'' ! (n mod 10)])"

declare str_nat.simps [simp del]

definition fmt_02d :: "nat \<Rightarrow> string" where
  "fmt_02d n = (let s = str_nat n in if length s < 2 then ''0'' @ s else s)"

section \<open>The manifest parser (scripts/lib/sections.py)\<close>

text \<open>
  \<open>SECTION_NAME_PATTERN = re.compile(r'^section-(\d{2})-([a-zA-Z0-9_-]+)$')\<close>, used with
  \<open>.match\<close>: the result is the pair of groups. In Python \<open>$\<close> also matches just
  before a newline that ends the string, which the first line of the definition keeps.
\<close>

definition SECTION_NAME_PATTERN_match :: "string \<Rightarrow> (string \<times> string) option" where
  "SECTION_NAME_PATTERN_match s =
     (let body = (if s \<noteq> [] \<and> last s = CHR 0x0A then butlast s else s) in
      if prefix ''section-'' body then
        (let num = take 2 (drop 8 body); rest = drop 10 body in
         if length num = 2 \<and> list_all is_digit num \<and> take 1 rest = ''-''
            \<and> drop 1 rest \<noteq> [] \<and> list_all is_name_char (drop 1 rest)
         then Some (num, drop 1 rest)
         else None)
      else None)"

definition MANIFEST_START :: string where
  "MANIFEST_START = ''<!-- SECTION_MANIFEST''"

definition MANIFEST_END :: string where
  "MANIFEST_END = ''END_MANIFEST -->''"

text \<open>The dict that \<open>parse_manifest_block\<close> returns.\<close>

record manifest_result =
  success :: bool
  sections :: "string list"
  error :: "string option"
  warnings :: "string list"

definition invalid_name_message :: "nat \<Rightarrow> string \<Rightarrow> string" where
  "invalid_name_message line_num line =
     ''Invalid section name on line '' @ str_nat line_num @ '': '' @ [CHR 0x27] @ line
     @ [CHR 0x27] @ ''. ''
     @ ''Expected format: section-NN-name (e.g., section-01-foundation). ''
     @ ''Section numbers must be two digits (01, 02, etc.).''"

definition duplicate_message :: "nat \<Rightarrow> string \<Rightarrow> string \<Rightarrow> string" where
  "duplicate_message line_num line section_num =
     ''Duplicate section number on line '' @ str_nat line_num @ '': '' @ [CHR 0x27] @ line
     @ [CHR 0x27] @ ''. ''
     @ ''Section '' @ section_num @ '' already defined.''"

definition gap_message :: "nat \<Rightarrow> nat \<Rightarrow> string" where
  "gap_message expected_num actual_num =
     ''Section numbering gap: expected section-'' @ fmt_02d expected_num
     @ '', found section-'' @ fmt_02d actual_num"

text \<open>
  The loop over the enumerated lines of the block. It returns \<open>Inl\<close> with the dict of an
  early \<open>return\<close>, or \<open>Inr\<close> with the list \<open>sections\<close> when the loop runs to its end.
  \<open>ws\<close> is the variable \<open>warnings\<close>, \<open>seen\<close> the set \<open>seen_numbers\<close>.
\<close>

fun parse_lines ::
  "string list \<Rightarrow> nat \<Rightarrow> string list \<Rightarrow> string list \<Rightarrow> string set
    \<Rightarrow> manifest_result + string list" where
  "parse_lines ws line_num [] secs seen = Inr secs"
| "parse_lines ws line_num (raw # rest) secs seen =
     (let line = strip raw in
      if line = [] then parse_lines ws (Suc line_num) rest secs seen
      else
        (case SECTION_NAME_PATTERN_match line of
           None \<Rightarrow>
             Inl \<lparr>success = False, sections = [],
                  error = Some (invalid_name_message line_num line), warnings = ws\<rparr>
         | Some (section_num, name) \<Rightarrow>
             if section_num \<in> seen then
               Inl \<lparr>success = False, sections = [],
                    error = Some (duplicate_message line_num line section_num),
                    warnings = ws\<rparr>
             else parse_lines ws (Suc line_num) rest (secs @ [line])
                    (insert section_num seen)))"

text \<open>
  The sort key \<open>int(SECTION_NAME_PATTERN.match(x).group(1))\<close>; \<open>None\<close> where \<open>match\<close>
  returns \<open>None\<close> and the attribute access raises.
\<close>

definition section_number :: "string \<Rightarrow> nat option" where
  "section_number x = map_option (\<lambda>(num, name). int_of_digits num) (SECTION_NAME_PATTERN_match x)"

text \<open>
  \<open>xs.sort(key=...)\<close>: Python computes every key first, so a key that raises aborts
  the sort; the sort itself is stable, as \<open>sort_key\<close> is.
\<close>

definition sort_by_key :: "('a \<Rightarrow> nat option) \<Rightarrow> 'a list \<Rightarrow> py_error + 'a list" where
  "sort_by_key key xs =
     (if list_all (\<lambda>x. key x \<noteq> None) xs then Inr (sort_key (\<lambda>x. the (key x)) xs)
      else Inl AttributeError)"

text \<open>The loop that appends a warning at each numbering gap.\<close>

fun gap_loop :: "nat \<Rightarrow> string list \<Rightarrow> string list \<Rightarrow> py_error + string list" where
  "gap_loop expected_num [] ws = Inr ws"
| "gap_loop expected_num (section # rest) ws =
     (case section_number section of
        None \<Rightarrow> Inl AttributeError
      | Some actual_num \<Rightarrow>
          gap_loop (actual_num + 1) rest
            (if actual_num \<noteq> expected_num
             then ws @ [gap_message expected_num actual_num] else ws))"

definition parse_manifest_block :: "string \<Rightarrow> py_error + manifest_result" where
  "parse_manifest_block content =
     (let ws = [] in
      case str_find MANIFEST_START content of
        None \<Rightarrow>
          Inr \<lparr>success = False, sections = [],
               error = Some (''No SECTION_MANIFEST block found in index.md. ''
                 @ ''index.md must start with a SECTION_MANIFEST block. ''
                 @ ''See SKILL.md step 18 for the required format.''),
               warnings = ws\<rparr>
      | Some start_idx \<Rightarrow>
          (case str_find_from MANIFEST_END content start_idx of
             None \<Rightarrow>
               Inr \<lparr>success = False, sections = [],
                    error = Some ''SECTION_MANIFEST block not closed (missing END_MANIFEST -->)'',
                    warnings = ws\<rparr>
           | Some end_idx \<Rightarrow>
               (let block_start = start_idx + length MANIFEST_START;
                    block_content = strip (slice content block_start end_idx) in
                if block_content = [] then
                  Inr \<lparr>success = False, sections = [],
                       error = Some ''SECTION_MANIFEST block is empty. Add section definitions, one per line.'',
                       warnings = ws\<rparr>
                else
                  (case parse_lines ws 1 (split_nl block_content) [] {} of
                     Inl failure \<Rightarrow> Inr failure
                   | Inr secs \<Rightarrow>
                       if secs = [] then
                         Inr \<lparr>success = False, sections = [],
                              error = Some ''No valid sections found in SECTION_MANIFEST block'',
                              warnings = ws\<rparr>
                       else
                         (case sort_by_key section_number secs of
                            Inl e \<Rightarrow> Inl e
                          | Inr sorted_secs \<Rightarrow>
                              (case gap_loop 1 sorted_secs ws of
                                 Inl e \<Rightarrow> Inl e
                               | Inr ws' \<Rightarrow>
                                   Inr \<lparr>success = True, sections = sorted_secs,
                                        error = None, warnings = ws'\<rparr>))))))"

text \<open>The dict that \<open>check_index_format\<close> returns.\<close>

record index_format =
  fmt_exists :: bool
  has_manifest :: bool
  manifest_valid :: bool
  fmt_sections :: "string list"
  fmt_error :: "string option"
  fmt_warnings :: "string list"

text \<open>
  A directory is the list of its entries, name and text, in the order in which the
  file system lists them; names are distinct, and every entry is a file whose text is
  what \<open>read_text()\<close> returns. \<open>path.exists()\<close> and \<open>path.read_text()\<close> of a file in
  the directory are one lookup.
\<close>

type_synonym directory = "(string \<times> string) list"

definition read_file :: "directory \<Rightarrow> string \<Rightarrow> string option" where
  "read_file d name = map_of d name"

text \<open>
  \<open>check_index_format(index_path)\<close>, for \<open>index_path = sections_dir / "index.md"\<close>.
\<close>

definition check_index_format :: "directory \<Rightarrow> py_error + index_format" where
  "check_index_format sections_dir =
     (case read_file sections_dir ''index.md'' of
        None \<Rightarrow>
          Inr \<lparr>fmt_exists = False, has_manifest = False, manifest_valid = False,
               fmt_sections = [], fmt_error = Some ''index.md does not exist'',
               fmt_warnings = []\<rparr>
      | Some content \<Rightarrow>
          if str_find MANIFEST_START content = None then
            Inr \<lparr>fmt_exists = True, has_manifest = False, manifest_valid = False,
                 fmt_sections = [],
                 fmt_error = Some (''index.md is missing SECTION_MANIFEST block. ''
                   @ ''index.md must start with a SECTION_MANIFEST block. ''
                   @ ''See SKILL.md step 18 for the required format.''),
                 fmt_warnings = []\<rparr>
          else
            (case parse_manifest_block content of
               Inl e \<Rightarrow> Inl e
             | Inr result \<Rightarrow>
                 Inr \<lparr>fmt_exists = True, has_manifest = True,
                      manifest_valid = success result, fmt_sections = sections result,
                      fmt_error = error result, fmt_warnings = warnings result\<rparr>))"

section \<open>Section progress (scripts/lib/sections.py)\<close>

text \<open>
  \<open>sections_dir.glob("section-*.md")\<close>: the names that start with \<open>section-\<close>, end with
  \<open>.md\<close> and are long enough for both, in listing order.
\<close>

definition glob_match :: "string \<Rightarrow> bool" where
  "glob_match name =
     (prefix ''section-'' name \<and> suffix ''.md'' name \<and> 11 \<le> length name)"

definition glob_sections :: "directory \<Rightarrow> string list" where
  "glob_sections d = filter glob_match (map fst d)"

text \<open>\<open>f.stem\<close> of a name that ends with \<open>.md\<close> and has a character before it.\<close>

definition stem :: "string \<Rightarrow> string" where
  "stem name = take (length name - 3) name"

text \<open>
  \<open>re.search(r'section-(\d+)', x)\<close>: the leftmost place where \<open>section-\<close> is followed by
  a digit, with the whole digit run as group 1; \<open>None\<close> when there is none.
\<close>

fun search_section_digits :: "string \<Rightarrow> string option" where
  "search_section_digits [] = None"
| "search_section_digits (c # cs) =
     (if prefix ''section-'' (c # cs) \<and> takeWhile is_digit (drop 8 (c # cs)) \<noteq> []
      then Some (takeWhile is_digit (drop 8 (c # cs)))
      else search_section_digits cs)"

text \<open>
  The sort key \<open>int(re.search(r'section-(\d+)', x).group(1))\<close>; \<open>None\<close> where \<open>search\<close>
  returns \<open>None\<close> and \<open>.group\<close> raises \<open>AttributeError\<close>.
\<close>

definition completed_key :: "string \<Rightarrow> nat option" where
  "completed_key x = map_option int_of_digits (search_section_digits x)"

text \<open>
  \<open>get_completed_sections(sections_dir)\<close>; the argument is \<open>None\<close> when the directory
  does not exist.
\<close>

definition get_completed_sections :: "directory option \<Rightarrow> py_error + string list" where
  "get_completed_sections sections_dir =
     (case sections_dir of
        None \<Rightarrow> Inr []
      | Some d \<Rightarrow> sort_by_key completed_key (map stem (glob_sections d)))"

text \<open>The dict that \<open>check_section_progress\<close> returns.\<close>

record section_progress =
  state :: string
  index_exists :: bool
  defined_sections :: "string list"
  completed_sections :: "string list"
  missing_sections :: "string list"
  next_section :: "string option"
  progress :: string
  index_format :: index_format

text \<open>
  A planning directory, as far as \<open>check_section_progress\<close> reads it: its entry
  \<open>sections\<close>, \<open>None\<close> when there is no directory of that name (no entry, or a
  plain file, for which \<open>is_dir()\<close> and the lookup of \<open>index.md\<close> are both false).
\<close>

record planning_dir =
  sections_entry :: "directory option"

definition check_section_progress :: "planning_dir \<Rightarrow> py_error + section_progress" where
  "check_section_progress pd =
     (let sections_dir_exists = (sections_entry pd \<noteq> None);
          idx_exists =
            (case sections_entry pd of
               None \<Rightarrow> False
             | Some d \<Rightarrow> read_file d ''index.md'' \<noteq> None)
      in
      case (if idx_exists then check_index_format (the (sections_entry pd))
            else Inr \<lparr>fmt_exists = False, has_manifest = False, manifest_valid = False,
                      fmt_sections = [], fmt_error = None, fmt_warnings = []\<rparr>) of
        Inl e \<Rightarrow> Inl e
      | Inr fmt \<Rightarrow>
          (let defined = fmt_sections fmt in
           case (if sections_dir_exists then get_completed_sections (sections_entry pd)
                 else Inr []) of
             Inl e \<Rightarrow> Inl e
           | Inr completed \<Rightarrow>
               (let completed_set = set completed;
                    missing = filter (\<lambda>s. s \<notin> completed_set) defined;
                    st =
                      (if \<not> sections_dir_exists \<or> (\<not> idx_exists \<and> completed = [])
                       then ''fresh''
                       else if idx_exists \<and> \<not> manifest_valid fmt
                       then ''invalid_index''
                       else if idx_exists \<and> completed = []
                       then ''has_index''
                       else if idx_exists \<and> missing \<noteq> []
                       then ''partial''
                       else if idx_exists \<and> missing = [] \<and> defined \<noteq> []
                       then ''complete''
                       else ''fresh'');
                    nxt = (case missing of [] \<Rightarrow> None | s # rest \<Rightarrow> Some s);
                    total = length defined;
                    done = length completed;
                    prog =
                      (if total > 0 then str_nat done @ ''/'' @ str_nat total else ''0/0'')
                in
                Inr \<lparr>state = st, index_exists = idx_exists,
                     defined_sections = defined,
                     completed_sections = completed,
                     missing_sections = missing,
                     next_section = nxt, progress = prog,
                     index_format = fmt\<rparr>)))"

section \<open>Step inference (scripts/checks/setup-planning-session.py)\<close>

text \<open>The dict \<open>files\<close> that \<open>scan_planning_files\<close> builds.\<close>

record planning_files =
  research :: bool
  interview :: bool
  spec :: bool
  plan :: bool
  integration_notes :: bool
  plan_tdd :: bool
  reviews :: "string list"
  section_files :: "string list"
  sections_index :: bool

text \<open>How an f-string renders \<open>next_section\<close>, which may be \<open>None\<close>.\<close>

definition str_optional :: "string option \<Rightarrow> string" where
  "str_optional v = (case v of None \<Rightarrow> ''None'' | Some s \<Rightarrow> s)"

text \<open>
  \<open>infer_resume_step(files, section_progress)\<close>. The first \<open>if\<close> returns only in the
  states \<open>complete\<close>, \<open>partial\<close> and \<open>has_index\<close>; in any other state control falls
  through to the checks below it, which is the variable \<open>index_branch\<close> being \<open>None\<close>.
\<close>

definition infer_resume_step ::
  "planning_files \<Rightarrow> section_progress \<Rightarrow> int option \<times> string" where
  "infer_resume_step files sp =
     (let index_branch =
            (if sections_index files then
               (if state sp = ''complete'' then Some (None, ''complete'')
                else if state sp = ''partial'' \<or> state sp = ''has_index''
                then Some (Some 19, ''sections '' @ progress sp @ '', next: ''
                             @ str_optional (next_section sp))
                else None)
             else None)
      in
      case index_branch of
        Some result \<Rightarrow> result
      | None \<Rightarrow>
          if section_files files \<noteq> [] then (Some 18, ''section files exist but no index'')
          else if plan_tdd files then (Some 17, ''TDD plan complete'')
          else if integration_notes files then (Some 15, ''feedback integrated'')
          else if reviews files \<noteq> [] then (Some 14, ''external review complete'')
          else if plan files then (Some 12, ''implementation plan complete'')
          else if spec files then (Some 11, ''spec complete'')
          else if interview files then (Some 10, ''interview complete'')
          else if research files then (Some 8, ''research complete'')
          else (Some 6, ''none''))"

section \<open>The TODO list (scripts/lib/todos.py)\<close>

record todo =
  content :: string
  status :: string
  activeForm :: string

definition TODO_ITEMS :: "(string \<times> string \<times> int) list" where
  "TODO_ITEMS =
     [(''Check context / offer compaction'', ''Checking context'', 0),
      (''Print intro and validate environment'', ''Validating environment'', 1),
      (''Handle environment errors'', ''Handling environment errors'', 2),
      (''Validate spec file input'', ''Validating spec file input'', 3),
      (''Setup planning session'', ''Setting up planning session'', 4),
      (''Research decision'', ''Deciding on research approach'', 6),
      (''Execute research'', ''Executing research'', 7),
      (''Detailed interview'', ''Conducting detailed interview'', 8),
      (''Save interview transcript'', ''Saving interview transcript'', 9),
      (''Write initial spec'', ''Writing initial spec'', 10),
      (''Generate implementation plan'', ''Generating implementation plan'', 11),
      (''Context check (pre-review)'', ''Checking context (pre-review)'', 12),
      (''External LLM review'', ''Running external LLM review'', 13),
      (''Integrate external feedback'', ''Integrating external feedback'', 14),
      (''User review of integrated plan'', ''Waiting for user review'', 15),
      (''Apply TDD approach'', ''Applying TDD approach'', 16),
      (''Context check (pre-split)'', ''Checking context (pre-split)'', 17),
      (''Create section index'', ''Creating section index'', 18),
      (''Generate section TODOs'', ''Generating section TODOs'', 19),
      (''Write section files'', ''Writing section files'', 20),
      (''Final status and cleanup'', ''Finalizing status and cleanup'', 21),
      (''Output summary'', ''Outputting summary'', 22)]"

definition GENERATE_SECTION_TODOS_CONTENT :: string where
  "GENERATE_SECTION_TODOS_CONTENT = ''Generate section TODOs''"

definition WRITE_SECTIONS_CONTENT :: string where
  "WRITE_SECTIONS_CONTENT = ''Write section files''"

text \<open>
  The items prepended for the context arguments. A path argument counts when it is
  neither \<open>None\<close> nor the empty string; the flag counts when it is not \<open>None\<close>.
\<close>

definition context_path_item :: "string \<Rightarrow> string option \<Rightarrow> todo list" where
  "context_path_item key v =
     (case v of
        None \<Rightarrow> []
      | Some p \<Rightarrow>
          if p = [] then []
          else [\<lparr>content = key @ ''='' @ p, status = ''completed'',
                 activeForm = ''Context: '' @ key\<rparr>])"

definition context_items ::
  "string option \<Rightarrow> string option \<Rightarrow> string option \<Rightarrow> bool option \<Rightarrow> todo list" where
  "context_items plugin_root planning_dir initial_file context_check_enabled =
     context_path_item ''plugin_root'' plugin_root
     @ context_path_item ''planning_dir'' planning_dir
     @ context_path_item ''initial_file'' initial_file
     @ (case context_check_enabled of
          None \<Rightarrow> []
        | Some b \<Rightarrow>
            [\<lparr>content = ''context_check_enabled='' @ (if b then ''true'' else ''false''),
              status = ''completed'',
              activeForm = ''Context: context_check_enabled''\<rparr>])"

text \<open>The status of a step-table entry that is not replaced.\<close>

definition step_status :: "int \<Rightarrow> int \<Rightarrow> string" where
  "step_status current_step step =
     (if step < current_step then ''completed''
      else if step = current_step then ''in_progress''
      else ''pending'')"

text \<open>The loop over the step table; \<open>todos\<close> is the list built so far.\<close>

fun todo_loop ::
  "int \<Rightarrow> todo list option \<Rightarrow> (string \<times> string \<times> int) list \<Rightarrow> todo list \<Rightarrow> todo list" where
  "todo_loop current_step section_todos [] todos = todos"
| "todo_loop current_step section_todos ((c, active_form, step) # rest) todos =
     (case section_todos of
        None \<Rightarrow>
          todo_loop current_step section_todos rest
            (todos @ [\<lparr>content = c, status = step_status current_step step,
                        activeForm = active_form\<rparr>])
      | Some items \<Rightarrow>
          if c = GENERATE_SECTION_TODOS_CONTENT
          then todo_loop current_step section_todos rest todos
          else if c = WRITE_SECTIONS_CONTENT
          then todo_loop current_step section_todos rest (todos @ items)
          else todo_loop current_step section_todos rest
                 (todos @ [\<lparr>content = c, status = step_status current_step step,
                             activeForm = active_form\<rparr>]))"

definition generate_todos ::
  "int \<Rightarrow> todo list option \<Rightarrow> string option \<Rightarrow> string option \<Rightarrow> string option
    \<Rightarrow> bool option \<Rightarrow> todo list" where
  "generate_todos current_step section_todos plugin_root planning_dir initial_file
     context_check_enabled =
     todo_loop current_step section_todos TODO_ITEMS
       (context_items plugin_root planning_dir initial_file context_check_enabled)"


section \<open>Notions used to state the properties\<close>

text \<open>
  The text between the two markers, stripped: the value of \<open>block_content\<close> in
  \<open>parse_manifest_block\<close>; \<open>None\<close> when a marker is missing.
\<close>

definition manifest_block :: "string \<Rightarrow> string option" where
  "manifest_block doc =
     (case str_find MANIFEST_START doc of
        None \<Rightarrow> None
      | Some start_idx \<Rightarrow>
          (case str_find_from MANIFEST_END doc start_idx of
             None \<Rightarrow> None
           | Some end_idx \<Rightarrow>
               Some (strip (slice doc (start_idx + length MANIFEST_START) end_idx))))"

text \<open>The lines of a block that the loop looks at: stripped, blank ones dropped.\<close>

definition accepted_lines :: "string \<Rightarrow> string list" where
  "accepted_lines block = filter (\<lambda>l. l \<noteq> []) (map strip (split_nl block))"

definition well_formed :: "string \<Rightarrow> bool" where
  "well_formed l = (SECTION_NAME_PATTERN_match l \<noteq> None)"

text \<open>Group 1 of the pattern, as text: what \<open>seen_numbers\<close> holds.\<close>

definition number_text :: "string \<Rightarrow> string" where
  "number_text l =
     (case SECTION_NAME_PATTERN_match l of None \<Rightarrow> [] | Some (num, name) \<Rightarrow> num)"

text \<open>The section number of a line that matches the pattern (\<open>well_formed\<close>).\<close>

definition number_of :: "string \<Rightarrow> nat" where
  "number_of l = the (section_number l)"

text \<open>
  The warnings of a sorted list of section numbers: one for each number that differs
  from the number expected at its place, which is 1 at the start and one more than the
  previous number afterwards.
\<close>

fun gap_warnings :: "nat \<Rightarrow> nat list \<Rightarrow> string list" where
  "gap_warnings expected_num [] = []"
| "gap_warnings expected_num (actual_num # rest) =
     (if actual_num \<noteq> expected_num then [gap_message expected_num actual_num] else [])
     @ gap_warnings (actual_num + 1) rest"


text \<open>A failing result with no warnings.\<close>

definition failure :: "string \<Rightarrow> manifest_result" where
  "failure msg = \<lparr>success = False, sections = [], error = Some msg, warnings = []\<rparr>"

text \<open>
  A step-table entry rendered as a TODO item for a current step, and the parts of an
  entry.
\<close>

definition render :: "int \<Rightarrow> string \<times> string \<times> int \<Rightarrow> todo" where
  "render current_step e =
     (case e of (c, active_form, step) \<Rightarrow>
        \<lparr>content = c, status = step_status current_step step, activeForm = active_form\<rparr>)"


definition entry_content :: "string \<times> string \<times> int \<Rightarrow> string" where
  "entry_content e = fst e"

definition entry_step :: "string \<times> string \<times> int \<Rightarrow> int" where
  "entry_step e = snd (snd e)"



text \<open>The five values that the field \<open>state\<close> can take.\<close>

definition known_states :: "string list" where
  "known_states = [''fresh'', ''invalid_index'', ''has_index'', ''partial'', ''complete'']"

text \<open>The sort key of a completed section whose name has a digit run after \<open>section-\<close>.\<close>

definition sort_number :: "string \<Rightarrow> nat" where
  "sort_number x = the (completed_key x)"

section \<open>Properties of the manifest parser\<close>

lemma parse_lines_Inl:
  "parse_lines ws n ls secs seen = Inl f \<Longrightarrow>
     \<not> success f \<and> sections f = [] \<and> warnings f = ws \<and>
     error f \<noteq> Some ''No valid sections found in SECTION_MANIFEST block''"
proof (induction ls arbitrary: n secs seen)
  case Nil
  then show ?case by simp
next
  case (Cons raw rest)
  then show ?case
    by (auto simp: Let_def invalid_name_message_def duplicate_message_def
        split: if_splits option.splits prod.splits)
qed

lemma parse_lines_Inr_iff:
  "parse_lines ws n ls secs seen = Inr out \<longleftrightarrow>
     list_all well_formed (filter (\<lambda>l. l \<noteq> []) (map strip ls)) \<and>
     distinct (map number_text (filter (\<lambda>l. l \<noteq> []) (map strip ls))) \<and>
     set (map number_text (filter (\<lambda>l. l \<noteq> []) (map strip ls))) \<inter> seen = {} \<and>
     out = secs @ filter (\<lambda>l. l \<noteq> []) (map strip ls)"
proof (induction ls arbitrary: n secs seen)
  case Nil
  then show ?case by auto
next
  case (Cons raw rest)
  show ?case
  proof (cases "strip raw = []")
    case True
    then show ?thesis using Cons.IH by simp
  next
    case False
    show ?thesis
    proof (cases "SECTION_NAME_PATTERN_match (strip raw)")
      case None
      then show ?thesis using False by (simp add: well_formed_def)
    next
      case (Some p)
      obtain num name where p: "p = (num, name)" by (cases p)
      show ?thesis
      proof (cases "num \<in> seen")
        case True
        then show ?thesis using False Some p by (auto simp: number_text_def)
      next
        case notin: False
        then show ?thesis
          using False Some p Cons.IH[of "Suc n" "secs @ [strip raw]" "insert num seen"]
          by (auto simp: number_text_def well_formed_def)
      qed
    qed
  qed
qed

lemma strip_prefix: "prefix (strip s) (dropWhile isspace s)"
proof -
  have "suffix (dropWhile isspace (rev (dropWhile isspace s))) (rev (dropWhile isspace s))"
    by (rule suffix_dropWhile)
  then show ?thesis
    unfolding strip_def by (simp add: suffix_to_prefix)
qed

lemma strip_hd: "strip s \<noteq> [] \<Longrightarrow> \<not> isspace (hd (strip s))"
proof -
  assume ne: "strip s \<noteq> []"
  from strip_prefix[of s] obtain zs where eq: "dropWhile isspace s = strip s @ zs"
    by (auto simp: prefix_def)
  with ne have "hd (strip s) = hd (dropWhile isspace s)" by simp
  moreover have "dropWhile isspace s \<noteq> []" using eq ne by simp
  ultimately show ?thesis using hd_dropWhile[of isspace s] by simp
qed

lemma strip_nonspace_hd: "l \<noteq> [] \<Longrightarrow> \<not> isspace (hd l) \<Longrightarrow> strip l \<noteq> []"
proof -
  assume ne: "l \<noteq> []" and h: "\<not> isspace (hd l)"
  then have d: "dropWhile isspace l = l" by (cases l) auto
  have "hd l \<in> set (rev l)" using ne by simp
  then have "dropWhile isspace (rev l) \<noteq> []" using h by (auto simp: dropWhile_eq_Nil_conv)
  then show ?thesis by (simp add: strip_def d)
qed

lemma split_nl_first:
  "s \<noteq> [] \<Longrightarrow> hd s \<noteq> CHR 0x0A \<Longrightarrow> \<exists>l ls. split_nl s = l # ls \<and> l \<noteq> [] \<and> hd l = hd s"
  by (cases s) (auto split: list.splits)

lemma accepted_lines_nonempty:
  assumes "strip t \<noteq> []"
  shows "accepted_lines (strip t) \<noteq> []"
proof -
  have h: "\<not> isspace (hd (strip t))" using assms by (rule strip_hd)
  then have "hd (strip t) \<noteq> CHR 0x0A" by (auto simp: isspace_def)
  with assms obtain l ls where sp: "split_nl (strip t) = l # ls" "l \<noteq> []" "hd l = hd (strip t)"
    using split_nl_first by blast
  then have "strip l \<noteq> []" using h strip_nonspace_hd by simp
  then show ?thesis using sp by (simp add: accepted_lines_def)
qed

lemma gap_loop_eq:
  "list_all well_formed xs \<Longrightarrow>
     gap_loop e xs ws = Inr (ws @ gap_warnings e (map number_of xs))"
proof (induction xs arbitrary: e ws)
  case Nil
  then show ?case by simp
next
  case (Cons x xs)
  then obtain k where "section_number x = Some k"
    by (auto simp: well_formed_def section_number_def)
  then show ?case using Cons by (simp add: number_of_def)
qed

lemma sort_by_key_section_number:
  "list_all well_formed xs \<Longrightarrow> sort_by_key section_number xs = Inr (sort_key number_of xs)"
proof -
  assume a: "list_all well_formed xs"
  then have "list_all (\<lambda>x. section_number x \<noteq> None) xs"
    by (simp add: list_all_iff well_formed_def section_number_def)
  moreover have "(\<lambda>x. the (section_number x)) = number_of" by (auto simp: number_of_def)
  ultimately show ?thesis by (simp add: sort_by_key_def)
qed

lemma parse_manifest_block_no_block:
  "manifest_block doc = None \<Longrightarrow>
     \<exists>msg. parse_manifest_block doc = Inr (failure msg) \<and>
       msg \<noteq> ''No valid sections found in SECTION_MANIFEST block''"
  by (auto simp: manifest_block_def parse_manifest_block_def failure_def Let_def split: option.splits)

lemma parse_manifest_block_empty:
  "manifest_block doc = Some [] \<Longrightarrow>
     parse_manifest_block doc =
       Inr (failure ''SECTION_MANIFEST block is empty. Add section definitions, one per line.'')"
  by (auto simp: manifest_block_def parse_manifest_block_def failure_def Let_def split: option.splits)

lemma manifest_block_stripped:
  "manifest_block doc = Some block \<Longrightarrow> \<exists>t. block = strip t"
  by (auto simp: manifest_block_def split: option.splits)

lemma parse_manifest_block_lines:
  assumes "manifest_block doc = Some block" "block \<noteq> []"
  shows "parse_manifest_block doc =
     (case parse_lines [] 1 (split_nl block) [] {} of
        Inl f \<Rightarrow> Inr f
      | Inr secs \<Rightarrow>
          Inr \<lparr>success = True, sections = sort_key number_of secs, error = None,
               warnings = gap_warnings 1 (map number_of (sort_key number_of secs))\<rparr>)"
proof (cases "parse_lines [] 1 (split_nl block) [] {}")
  case (Inl f)
  then show ?thesis using assms
    by (auto simp: manifest_block_def parse_manifest_block_def Let_def split: option.splits)
next
  case (Inr secs)
  then have secs: "secs = accepted_lines block" and wf: "list_all well_formed secs"
    by (auto simp: parse_lines_Inr_iff accepted_lines_def)
  obtain t where "block = strip t" using assms(1) manifest_block_stripped by blast
  then have ne: "secs \<noteq> []" using accepted_lines_nonempty assms(2) secs by simp
  have wf': "list_all well_formed (sort_key number_of secs)"
    using wf by (simp add: list_all_iff)
  show ?thesis using assms Inr ne
    by (auto simp: manifest_block_def parse_manifest_block_def Let_def
          sort_by_key_section_number[OF wf] gap_loop_eq[OF wf']
        split: option.splits)
qed


lemma digit_val_less: "is_digit a \<Longrightarrow> digit_val a < 10"
  by (auto simp: is_digit_def digit_val_def)

lemma match_number_text:
  "SECTION_NAME_PATTERN_match l = Some (num, name) \<Longrightarrow>
     \<exists>a b. num = [a, b] \<and> is_digit a \<and> is_digit b"
proof -
  assume "SECTION_NAME_PATTERN_match l = Some (num, name)"
  then have "length num = 2" "list_all is_digit num"
    by (auto simp: SECTION_NAME_PATTERN_match_def Let_def split: if_splits)
  then show ?thesis
    by (cases num; cases "tl num") auto
qed





lemma number_of_less_100: "well_formed x \<Longrightarrow> number_of x < 100"
proof -
  assume "well_formed x"
  then obtain n m where m: "SECTION_NAME_PATTERN_match x = Some (n, m)"
    by (auto simp: well_formed_def)
  then obtain a b where d: "n = [a, b]" "is_digit a" "is_digit b"
    using match_number_text by blast
  then have "digit_val a < 10" "digit_val b < 10" using digit_val_less by auto
  then show ?thesis using m d by (simp add: number_of_def section_number_def int_of_digits_def)
qed







lemma parse_manifest_block_success_iff:
  "(parse_manifest_block doc = Inr r \<and> success r) \<longleftrightarrow>
     (\<exists>block. manifest_block doc = Some block \<and> block \<noteq> [] \<and>
        list_all well_formed (accepted_lines block) \<and>
        distinct (map number_text (accepted_lines block)) \<and>
        r = \<lparr>success = True, sections = sort_key number_of (accepted_lines block),
             error = None,
             warnings = gap_warnings 1 (map number_of
               (sort_key number_of (accepted_lines block)))\<rparr>)"
proof (cases "manifest_block doc")
  case None
  then show ?thesis using parse_manifest_block_no_block[of doc] by (auto simp: failure_def)
next
  case (Some block)
  show ?thesis
  proof (cases "block = []")
    case True
    then show ?thesis using Some parse_manifest_block_empty[of doc] by (auto simp: failure_def)
  next
    case False
    show ?thesis
    proof (cases "parse_lines [] 1 (split_nl block) [] {}")
      case (Inl f)
      then have nr: "\<And>out. parse_lines [] 1 (split_nl block) [] {} \<noteq> Inr out" by simp
      have "\<not> success f" using Inl parse_lines_Inl by blast
      moreover have "parse_manifest_block doc = Inr f"
        using parse_manifest_block_lines[OF Some False] Inl by simp
      moreover have "\<not> (list_all well_formed (accepted_lines block) \<and>
          distinct (map number_text (accepted_lines block)))"
        using nr[unfolded parse_lines_Inr_iff] by (auto simp: accepted_lines_def)
      ultimately show ?thesis using Some by auto
    next
      case (Inr secs)
      then have "secs = accepted_lines block" "list_all well_formed (accepted_lines block)"
        "distinct (map number_text (accepted_lines block))"
        by (auto simp: parse_lines_Inr_iff accepted_lines_def)
      then show ?thesis
        using parse_manifest_block_lines[OF Some False] Inr Some False by auto
    qed
  qed
qed

lemma parse_manifest_block_total: "\<exists>r. parse_manifest_block doc = Inr r"
proof (cases "manifest_block doc")
  case None
  then show ?thesis using parse_manifest_block_no_block[of doc] by auto
next
  case (Some block)
  show ?thesis
  proof (cases "block = []")
    case True
    then show ?thesis using Some parse_manifest_block_empty[of doc] by auto
  next
    case False
    then show ?thesis using parse_manifest_block_lines[OF Some False]
      by (auto split: sum.splits)
  qed
qed

text \<open>The equations that evaluate the parser on a given text.\<close>

lemmas eval_defs =
  parse_manifest_block_def manifest_block_def accepted_lines_def well_formed_def
  number_of_def number_text_def
  MANIFEST_START_def MANIFEST_END_def str_find_from_def slice_def
  strip_def isspace_def SECTION_NAME_PATTERN_match_def is_digit_def is_name_char_def
  sort_by_key_def section_number_def int_of_digits_def digit_val_def gap_message_def
  fmt_02d_def str_nat.simps Let_def

lemma parse_lines_Inl_kind:
  "parse_lines ws n ls secs seen = Inl f \<Longrightarrow>
     (\<exists>k l. error f = Some (invalid_name_message k l)) \<or>
     (\<exists>k l m. error f = Some (duplicate_message k l m))"
proof (induction ls arbitrary: n secs seen)
  case Nil
  then show ?case by simp
next
  case (Cons raw rest)
  show ?case
  proof (cases "strip raw = []")
    case True
    then show ?thesis using Cons by simp
  next
    case False
    show ?thesis
    proof (cases "SECTION_NAME_PATTERN_match (strip raw)")
      case None
      then have "error f = Some (invalid_name_message n (strip raw))"
        using Cons.prems False by auto
      then show ?thesis by blast
    next
      case (Some p)
      obtain num name where p: "p = (num, name)" by (cases p)
      show ?thesis
      proof (cases "num \<in> seen")
        case True
        then have "error f = Some (duplicate_message n (strip raw) num)"
          using Cons.prems False Some p by auto
        then show ?thesis by blast
      next
        case notin: False
        then have "parse_lines ws (Suc n) rest (secs @ [strip raw]) (insert num seen) = Inl f"
          using Cons.prems False Some p by simp
        then show ?thesis by (rule Cons.IH)
      qed
    qed
  qed
qed

text \<open>
  C9. The branch of \<open>parse_manifest_block\<close> that returns the error
  "No valid sections found in SECTION_MANIFEST block" is never taken: for every text the
  parser returns a result whose error is not that message. The reason is the second
  part: when both markers are found and the stripped block is not empty, the loop over
  its lines either returns the failure for an invalid section name or for a duplicate
  section number, or it ends with at least one accepted section.
\<close>

theorem no_valid_sections_branch_unreachable:
  "(\<exists>r. parse_manifest_block doc = Inr r \<and>
        error r \<noteq> Some ''No valid sections found in SECTION_MANIFEST block'') \<and>
   (\<forall>block. manifest_block doc = Some block \<and> block \<noteq> [] \<longrightarrow>
      (case parse_lines [] 1 (split_nl block) [] {} of
         Inl f \<Rightarrow> (\<exists>k l. error f = Some (invalid_name_message k l)) \<or>
                  (\<exists>k l m. error f = Some (duplicate_message k l m))
       | Inr secs \<Rightarrow> secs \<noteq> []))"
proof
  show "\<exists>r. parse_manifest_block doc = Inr r \<and>
        error r \<noteq> Some ''No valid sections found in SECTION_MANIFEST block''"
  proof (cases "manifest_block doc")
    case None
    then show ?thesis using parse_manifest_block_no_block[of doc] by (auto simp: failure_def)
  next
    case (Some block)
    show ?thesis
    proof (cases "block = []")
      case True
      then show ?thesis using Some parse_manifest_block_empty[of doc] by (simp add: failure_def)
    next
      case False
      show ?thesis
      proof (cases "parse_lines [] 1 (split_nl block) [] {}")
        case (Inl f)
        then show ?thesis
          using parse_manifest_block_lines[OF Some False] parse_lines_Inl[OF Inl] by simp
      next
        case (Inr secs)
        then show ?thesis using parse_manifest_block_lines[OF Some False] by simp
      qed
    qed
  qed
next
  show "\<forall>block. manifest_block doc = Some block \<and> block \<noteq> [] \<longrightarrow>
      (case parse_lines [] 1 (split_nl block) [] {} of
         Inl f \<Rightarrow> (\<exists>k l. error f = Some (invalid_name_message k l)) \<or>
                  (\<exists>k l m. error f = Some (duplicate_message k l m))
       | Inr secs \<Rightarrow> secs \<noteq> [])"
  proof (intro allI impI)
    fix block
    assume a: "manifest_block doc = Some block \<and> block \<noteq> []"
    then obtain t where t: "block = strip t" using manifest_block_stripped by blast
    show "case parse_lines [] 1 (split_nl block) [] {} of
         Inl f \<Rightarrow> (\<exists>k l. error f = Some (invalid_name_message k l)) \<or>
                  (\<exists>k l m. error f = Some (duplicate_message k l m))
       | Inr secs \<Rightarrow> secs \<noteq> []"
    proof (cases "parse_lines [] 1 (split_nl block) [] {}")
      case (Inl f)
      then show ?thesis using parse_lines_Inl_kind[OF Inl] by simp
    next
      case (Inr secs)
      then have "secs = accepted_lines block"
        by (simp add: parse_lines_Inr_iff accepted_lines_def)
      then show ?thesis using Inr a t accepted_lines_nonempty[of t] by simp
    qed
  qed
qed

theorem no_valid_sections_branch_unreachable_witness:
  "(\<exists>r. parse_manifest_block
           (''<!-- SECTION_MANIFEST'' @ [CHR 0x0A] @ ''section-01-a'' @ [CHR 0x0A]
            @ ''END_MANIFEST -->'') = Inr r \<and>
        error r \<noteq> Some ''No valid sections found in SECTION_MANIFEST block'') \<and>
   manifest_block
     (''<!-- SECTION_MANIFEST'' @ [CHR 0x0A] @ ''section-01-a'' @ [CHR 0x0A]
      @ ''END_MANIFEST -->'') = Some ''section-01-a'' \<and>
   parse_lines [] 1 (split_nl ''section-01-a'') [] {} = Inr [''section-01-a'']"
  using no_valid_sections_branch_unreachable
    [of "''<!-- SECTION_MANIFEST'' @ [CHR 0x0A] @ ''section-01-a'' @ [CHR 0x0A]
         @ ''END_MANIFEST -->''"]
  by (simp add: eval_defs)

text \<open>
  C10. For every text, \<open>parse_manifest_block\<close> returns a result (it does not raise),
  and when that result has \<open>success\<close> false, its warnings list and its sections list
  are both empty: every failing exit is taken before the gap check runs.
\<close>

theorem failed_parse_has_no_warnings:
  "\<exists>r. parse_manifest_block doc = Inr r \<and>
     (\<not> success r \<longrightarrow> warnings r = [] \<and> sections r = [])"
proof (cases "manifest_block doc")
  case None
  then show ?thesis using parse_manifest_block_no_block[of doc] by (auto simp: failure_def)
next
  case (Some block)
  show ?thesis
  proof (cases "block = []")
    case True
    then show ?thesis using Some parse_manifest_block_empty[of doc] by (simp add: failure_def)
  next
    case False
    show ?thesis
    proof (cases "parse_lines [] 1 (split_nl block) [] {}")
      case (Inl f)
      then show ?thesis
        using parse_manifest_block_lines[OF Some False] parse_lines_Inl[OF Inl] by simp
    next
      case (Inr secs)
      then show ?thesis using parse_manifest_block_lines[OF Some False] by simp
    qed
  qed
qed

theorem failed_parse_has_no_warnings_witness:
  "\<exists>r. parse_manifest_block
          (''<!-- SECTION_MANIFEST'' @ [CHR 0x0A] @ ''section-01-a'' @ [CHR 0x0A]
           @ ''section-01-b'' @ [CHR 0x0A] @ ''END_MANIFEST -->'') = Inr r \<and>
       \<not> success r \<and> warnings r = [] \<and> sections r = []"
proof -
  obtain r where r: "parse_manifest_block
          (''<!-- SECTION_MANIFEST'' @ [CHR 0x0A] @ ''section-01-a'' @ [CHR 0x0A]
           @ ''section-01-b'' @ [CHR 0x0A] @ ''END_MANIFEST -->'') = Inr r"
      "\<not> success r \<longrightarrow> warnings r = [] \<and> sections r = []"
    using failed_parse_has_no_warnings by blast
  have "\<not> success r" using r(1) by (auto simp: eval_defs)
  then show ?thesis using r by blast
qed



text \<open>The order is by number, not by the text of the line: 02 comes before 10.\<close>

lemma parse_example_lexical:
  "parse_manifest_block
     (''<!-- SECTION_MANIFEST'' @ [CHR 0x0A] @ ''section-10-bbb'' @ [CHR 0x0A]
      @ ''section-02-zzz'' @ [CHR 0x0A] @ ''END_MANIFEST -->'') =
   Inr \<lparr>success = True, sections = [''section-02-zzz'', ''section-10-bbb''],
        error = None,
        warnings = [''Section numbering gap: expected section-01, found section-02'',
                    ''Section numbering gap: expected section-03, found section-10'']\<rparr>"
  by (simp add: eval_defs)



section \<open>Properties of the TODO list\<close>

lemma todo_loop_None:
  "todo_loop cs None tbl acc = acc @ map (render cs) tbl"
  by (induction tbl arbitrary: acc) (auto simp: render_def)















lemma generate_todos_None:
  "generate_todos cs None pr pd ifile cce =
     context_items pr pd ifile cce @ map (render cs) TODO_ITEMS"
  by (simp add: generate_todos_def todo_loop_None)

lemma context_items_completed:
  "list_all (\<lambda>t. status t = ''completed'') (context_items pr pd ifile cce)"
  by (auto simp: context_items_def context_path_item_def split: option.splits)

lemma status_context_items:
  "map status (context_items pr pd ifile cce) =
     replicate (length (context_items pr pd ifile cce)) ''completed''"
  using context_items_completed[of pr pd ifile cce]
  by (simp add: list_all_iff map_replicate_const[symmetric])

lemma status_render_6:
  "map status (map (render 6) TODO_ITEMS) =
     replicate 5 ''completed'' @ [''in_progress''] @ replicate 16 ''pending''"
  by (simp add: TODO_ITEMS_def render_def step_status_def numeral_eq_Suc)

text \<open>
  C7. Without a section-replacement list the output is the context items followed by
  one item per step-table entry, in table order, whose status is \<open>completed\<close> when the
  entry's step is less than \<open>current_step\<close>, \<open>in_progress\<close> when equal and \<open>pending\<close>
  when greater. For \<open>current_step = 6\<close> the statuses are: \<open>completed\<close> for the context
  items and the five setup entries, \<open>in_progress\<close> once, \<open>pending\<close> for the sixteen
  entries that remain.
\<close>

theorem todo_status_by_step:
  "generate_todos cs None pr pd ifile cce =
     context_items pr pd ifile cce @ map (render cs) TODO_ITEMS \<and>
   list_all2
     (\<lambda>e t. content t = entry_content e \<and>
        (entry_step e < cs \<longrightarrow> status t = ''completed'') \<and>
        (entry_step e = cs \<longrightarrow> status t = ''in_progress'') \<and>
        (cs < entry_step e \<longrightarrow> status t = ''pending''))
     TODO_ITEMS
     (drop (length (context_items pr pd ifile cce)) (generate_todos cs None pr pd ifile cce)) \<and>
   map status (generate_todos 6 None pr pd ifile cce) =
     replicate (length (context_items pr pd ifile cce) + 5) ''completed''
     @ [''in_progress''] @ replicate 16 ''pending''"
proof (intro conjI)
  show "generate_todos cs None pr pd ifile cce =
     context_items pr pd ifile cce @ map (render cs) TODO_ITEMS"
    by (rule generate_todos_None)
next
  have "list_all2
     (\<lambda>e t. content t = entry_content e \<and>
        (entry_step e < cs \<longrightarrow> status t = ''completed'') \<and>
        (entry_step e = cs \<longrightarrow> status t = ''in_progress'') \<and>
        (cs < entry_step e \<longrightarrow> status t = ''pending''))
     tbl (map (render cs) tbl)" for tbl
    by (induction tbl)
       (auto simp: render_def entry_content_def entry_step_def step_status_def)
  then show "list_all2
     (\<lambda>e t. content t = entry_content e \<and>
        (entry_step e < cs \<longrightarrow> status t = ''completed'') \<and>
        (entry_step e = cs \<longrightarrow> status t = ''in_progress'') \<and>
        (cs < entry_step e \<longrightarrow> status t = ''pending''))
     TODO_ITEMS
     (drop (length (context_items pr pd ifile cce)) (generate_todos cs None pr pd ifile cce))"
    by (simp add: generate_todos_None)
next
  show "map status (generate_todos 6 None pr pd ifile cce) =
     replicate (length (context_items pr pd ifile cce) + 5) ''completed''
     @ [''in_progress''] @ replicate 16 ''pending''"
    using status_context_items[of pr pd ifile cce] status_render_6
    by (simp add: generate_todos_None replicate_add)
qed

theorem todo_status_by_step_witness:
  "map status (generate_todos 6 None (Some ''/plugin'') (Some ''/plan'')
      (Some ''/plan/spec.md'') (Some True)) =
     replicate 9 ''completed'' @ [''in_progress''] @ replicate 16 ''pending'' \<and>
   length (filter (\<lambda>s. s = ''in_progress'')
     (map status (generate_todos 6 None (Some ''/plugin'') (Some ''/plan'')
      (Some ''/plan/spec.md'') (Some True)))) = 1"
proof -
  have l: "length (context_items (Some ''/plugin'') (Some ''/plan'')
      (Some ''/plan/spec.md'') (Some True)) = 4"
    by (simp add: context_items_def context_path_item_def)
  have m: "map status (generate_todos 6 None (Some ''/plugin'') (Some ''/plan'')
      (Some ''/plan/spec.md'') (Some True)) =
     replicate 9 ''completed'' @ [''in_progress''] @ replicate 16 ''pending''"
    using todo_status_by_step[of 6 "Some ''/plugin''" "Some ''/plan''"
      "Some ''/plan/spec.md''" "Some True", THEN conjunct2, THEN conjunct2]
    unfolding l by simp
  show ?thesis unfolding m by simp
qed

section \<open>Properties of section progress\<close>

text \<open>The equations that evaluate the progress check on a given directory.\<close>

lemmas progress_defs =
  check_section_progress_def check_index_format_def read_file_def get_completed_sections_def
  glob_sections_def glob_match_def stem_def completed_key_def suffix_to_prefix

lemma sort_by_key_Inr:
  "list_all (\<lambda>x. key x \<noteq> None) xs \<Longrightarrow>
     sort_by_key key xs = Inr (sort_key (\<lambda>x. the (key x)) xs)"
  by (simp add: sort_by_key_def)

lemma sort_by_key_Inl:
  "\<not> list_all (\<lambda>x. key x \<noteq> None) xs \<Longrightarrow> sort_by_key key xs = Inl AttributeError"
  by (simp add: sort_by_key_def)

lemma not_digit_hyphen: "\<not> is_digit CHR ''-''"
  by (simp add: is_digit_def)

lemma completed_key_any_width:
  assumes "ds \<noteq> []" "list_all is_digit ds"
  shows "completed_key (''section-'' @ ds @ ''-'' @ rest) = Some (int_of_digits ds)"
proof -
  have "takeWhile is_digit (ds @ CHR ''-'' # rest) = ds"
    using assms(2) not_digit_hyphen by (simp add: list_all_iff takeWhile_append2)
  then show ?thesis using assms(1) by (simp add: completed_key_def)
qed

lemma parse_success_sections:
  assumes "parse_manifest_block doc = Inr res" "success res"
  shows "sections res \<noteq> [] \<and> distinct (sections res)"
proof -
  from assms obtain block where b: "manifest_block doc = Some block" "block \<noteq> []"
      "distinct (map number_text (accepted_lines block))"
      "sections res = sort_key number_of (accepted_lines block)"
    using parse_manifest_block_success_iff[of doc res] by auto
  obtain t where "block = strip t" using b(1) manifest_block_stripped by blast
  then have "accepted_lines block \<noteq> []" using b(2) accepted_lines_nonempty by simp
  moreover have "distinct (accepted_lines block)" using b(3) by (simp add: distinct_map)
  ultimately show ?thesis using b(4) by (metis distinct_sort length_0_conv length_sort)
qed

lemma check_index_format_valid:
  assumes "check_index_format d = Inr fmt" "manifest_valid fmt"
  shows "fmt_sections fmt \<noteq> [] \<and> distinct (fmt_sections fmt)"
proof -
  from assms obtain doc res where "parse_manifest_block doc = Inr res" "success res"
      "fmt_sections fmt = sections res"
    by (auto simp: check_index_format_def split: option.splits if_splits sum.splits)
  then show ?thesis using parse_success_sections by simp
qed

lemma stem_glob: "glob_match n \<Longrightarrow> n = stem n @ ''.md''"
  by (auto simp: glob_match_def stem_def suffix_def)

lemma distinct_stems:
  assumes "distinct (map fst d)"
  shows "distinct (map stem (glob_sections d))"
proof -
  have "distinct (glob_sections d)" using assms by (simp add: glob_sections_def)
  moreover have "inj_on stem (set (glob_sections d))"
  proof (rule inj_onI)
    fix x y assume "x \<in> set (glob_sections d)" "y \<in> set (glob_sections d)" "stem x = stem y"
    then show "x = y" using stem_glob[of x] stem_glob[of y] by (simp add: glob_sections_def)
  qed
  ultimately show ?thesis by (simp add: distinct_map)
qed

lemma get_completed_sections_distinct:
  assumes "get_completed_sections (Some d) = Inr out" "distinct (map fst d)"
  shows "distinct out"
proof -
  have "out = sort_key (\<lambda>x. the (completed_key x)) (map stem (glob_sections d))"
    using assms(1) by (auto simp: get_completed_sections_def sort_by_key_def split: if_splits)
  then show ?thesis using distinct_stems[OF assms(2)] by simp
qed

lemma check_section_progress_Inr:
  assumes "check_section_progress pd = Inr r"
  obtains fmt completed where
    "(if (case sections_entry pd of None \<Rightarrow> False | Some d \<Rightarrow> read_file d ''index.md'' \<noteq> None)
      then check_index_format (the (sections_entry pd))
      else Inr \<lparr>fmt_exists = False, has_manifest = False, manifest_valid = False,
                fmt_sections = [], fmt_error = None, fmt_warnings = []\<rparr>) = Inr fmt"
    "(if sections_entry pd \<noteq> None then get_completed_sections (sections_entry pd)
      else Inr []) = Inr completed"
    "index_format r = fmt" "completed_sections r = completed"
    "index_exists r =
       (case sections_entry pd of None \<Rightarrow> False | Some d \<Rightarrow> read_file d ''index.md'' \<noteq> None)"
    "defined_sections r = fmt_sections fmt"
    "missing_sections r = filter (\<lambda>s. s \<notin> set completed) (fmt_sections fmt)"
proof -
  show ?thesis
    using assms that
    unfolding check_section_progress_def Let_def
    by (simp split: sum.splits) force
qed

lemma check_section_progress_fields:
  assumes "check_section_progress pd = Inr r"
  shows "defined_sections r = fmt_sections (index_format r)"
    and "missing_sections r =
           filter (\<lambda>s. s \<notin> set (completed_sections r)) (defined_sections r)"
    and "next_section r = (case missing_sections r of [] \<Rightarrow> None | s # rest \<Rightarrow> Some s)"
    and "progress r =
           (if length (defined_sections r) > 0
            then str_nat (length (completed_sections r)) @ ''/''
                 @ str_nat (length (defined_sections r))
            else ''0/0'')"
    and "state r =
           (if sections_entry pd = None \<or> (\<not> index_exists r \<and> completed_sections r = [])
            then ''fresh''
            else if index_exists r \<and> \<not> manifest_valid (index_format r)
            then ''invalid_index''
            else if index_exists r \<and> completed_sections r = []
            then ''has_index''
            else if index_exists r \<and> missing_sections r \<noteq> []
            then ''partial''
            else if index_exists r \<and> missing_sections r = [] \<and> defined_sections r \<noteq> []
            then ''complete''
            else ''fresh'')"
  using assms
  unfolding check_section_progress_def Let_def
  by (simp_all split: sum.splits) force+

lemma check_section_progress_completed:
  assumes "check_section_progress pd = Inr r"
  shows "get_completed_sections (sections_entry pd) = Inr (completed_sections r)"
proof -
  from assms obtain fmt completed where
    c: "(if sections_entry pd \<noteq> None then get_completed_sections (sections_entry pd)
      else Inr []) = Inr completed" "completed_sections r = completed"
    by (rule check_section_progress_Inr)
  then show ?thesis by (cases "sections_entry pd") (simp_all add: get_completed_sections_def)
qed

lemma check_section_progress_valid:
  assumes "check_section_progress pd = Inr r" "manifest_valid (index_format r)"
  shows "index_exists r" "sections_entry pd \<noteq> None"
    "check_index_format (the (sections_entry pd)) = Inr (index_format r)"
proof -
  from assms(1) obtain fmt completed where
    c: "(if (case sections_entry pd of None \<Rightarrow> False | Some d \<Rightarrow> read_file d ''index.md'' \<noteq> None)
      then check_index_format (the (sections_entry pd))
      else Inr \<lparr>fmt_exists = False, has_manifest = False, manifest_valid = False,
                fmt_sections = [], fmt_error = None, fmt_warnings = []\<rparr>) = Inr fmt"
    "index_format r = fmt"
    "index_exists r =
       (case sections_entry pd of None \<Rightarrow> False | Some d \<Rightarrow> read_file d ''index.md'' \<noteq> None)"
    by (rule check_section_progress_Inr)
  have i: "index_exists r"
  proof (rule ccontr)
    assume "\<not> index_exists r"
    then have "\<not> manifest_valid fmt" using c(1,3) by auto
    then show False using assms(2) c(2) by simp
  qed
  then show "index_exists r" .
  show "sections_entry pd \<noteq> None" using i c(3) by (auto split: option.splits)
  show "check_index_format (the (sections_entry pd)) = Inr (index_format r)"
    using i c by simp
qed

lemma check_section_progress_state:
  assumes "check_section_progress pd = Inr r"
  shows "state r \<in> set known_states"
  unfolding check_section_progress_fields(5)[OF assms] known_states_def by simp

lemma check_index_format_total: "\<exists>fmt. check_index_format d = Inr fmt"
proof (cases "read_file d ''index.md''")
  case None
  then show ?thesis by (simp add: check_index_format_def)
next
  case (Some doc)
  obtain res where "parse_manifest_block doc = Inr res"
    using parse_manifest_block_total by blast
  then show ?thesis using Some by (simp add: check_index_format_def)
qed

lemma get_completed_sections_raises_iff:
  "(\<exists>e. get_completed_sections (Some d) = Inl e) \<longleftrightarrow>
      \<not> list_all (\<lambda>n. completed_key (stem n) \<noteq> None) (glob_sections d)"
  by (simp add: get_completed_sections_def sort_by_key_def list_all_iff)

lemma check_section_progress_raises_iff:
  "(\<exists>e. check_section_progress pd = Inl e) \<longleftrightarrow>
     (\<exists>d. sections_entry pd = Some d \<and>
        \<not> list_all (\<lambda>n. completed_key (stem n) \<noteq> None) (glob_sections d))"
proof (cases "sections_entry pd")
  case None
  then show ?thesis unfolding check_section_progress_def Let_def by simp
next
  case (Some d)
  obtain fmt where fmt: "check_index_format d = Inr fmt"
    using check_index_format_total by blast
  show ?thesis
  proof (cases "get_completed_sections (Some d)")
    case (Inl e)
    then have "check_section_progress pd = Inl e"
      unfolding check_section_progress_def Let_def using Some fmt by simp
    then show ?thesis using Some Inl get_completed_sections_raises_iff[of d] by auto
  next
    case (Inr out)
    then have "\<exists>r. check_section_progress pd = Inr r"
      unfolding check_section_progress_def Let_def using Some fmt by simp
    then show ?thesis using Some Inr get_completed_sections_raises_iff[of d] by auto
  qed
qed

text \<open>
  C1. \<open>check_section_progress\<close> raises for a sections directory that holds a file
  matched by \<open>section-*.md\<close> whose stem has no digit after \<open>section-\<close>: the sort key of
  \<open>get_completed_sections\<close> reads a group of a search that found nothing. Here the
  directory holds the one file \<open>section-notes.md\<close>. (\<open>check_section_progress_raises_iff\<close>
  gives all the directories for which it raises, \<open>check_section_progress_state\<close> says
  that a returned state is one of the five.)
\<close>

theorem stray_section_file_raises:
  "check_section_progress \<lparr>sections_entry = Some [(''section-notes.md'', ''notes'')]\<rparr> =
     Inl AttributeError"
  by (simp add: progress_defs eval_defs)

text \<open>So no state is returned for this directory.\<close>

theorem stray_section_file_raises_witness:
  "\<not> (\<exists>r. check_section_progress
            \<lparr>sections_entry = Some [(''section-notes.md'', ''notes'')]\<rparr> = Inr r \<and>
          state r \<in> set known_states)"
  using stray_section_file_raises by simp

text \<open>
  C4, as stated, fails. A file \<open>section-01-setup.txt\<close> is not returned: only names that
  end with \<open>.md\<close> are looked at. And the files returned need not have the form
  \<open>section-<digits>-*\<close>: \<open>section-2.md\<close> and \<open>section-x-section-1.md\<close> are returned, the
  second sorted by the number 1 found later in its name.
\<close>

theorem completed_sections_counterexample:
  "get_completed_sections (Some [(''section-01-setup.txt'', ''text'')]) = Inr [] \<and>
   get_completed_sections
     (Some [(''section-2.md'', ''two''), (''section-x-section-1.md'', ''one'')]) =
     Inr [''section-x-section-1'', ''section-2'']"
  by (simp add: progress_defs eval_defs)

text \<open>
  C4, amended. For a sections directory in which every file matched by \<open>section-*.md\<close>
  has a stem with a digit after an occurrence of \<open>section-\<close>,
  \<open>get_completed_sections\<close> returns the stems of exactly the files matched by
  \<open>section-*.md\<close> (names that start with \<open>section-\<close> and end with \<open>.md\<close>), each once,
  sorted ascending by the integer value of the first digit run that follows \<open>section-\<close>
  in the stem, files with equal numbers staying in listing order. The digit run may have
  any width: a stem \<open>section-<digits>-rest\<close> has the value of its digits as its number.
\<close>

theorem completed_sections_sorted:
  assumes "list_all (\<lambda>n. completed_key (stem n) \<noteq> None) (glob_sections d)"
  shows "\<exists>out. get_completed_sections (Some d) = Inr out \<and>
     out = sort_key sort_number (map stem (glob_sections d)) \<and>
     mset out = mset (map stem (glob_sections d)) \<and>
     sorted (map sort_number out) \<and>
     set (glob_sections d) =
       {n. n \<in> fst ` set d \<and> prefix ''section-'' n \<and> suffix ''.md'' n \<and> 11 \<le> length n} \<and>
     (\<forall>ds rest. ds \<noteq> [] \<and> list_all is_digit ds \<longrightarrow>
        completed_key (''section-'' @ ds @ ''-'' @ rest) = Some (int_of_digits ds))"
proof -
  have a: "list_all (\<lambda>x. completed_key x \<noteq> None) (map stem (glob_sections d))"
    using assms by (simp add: list_all_iff)
  have s: "(\<lambda>x. the (completed_key x)) = sort_number" by (auto simp: sort_number_def)
  have "get_completed_sections (Some d) =
      Inr (sort_key sort_number (map stem (glob_sections d)))"
    using sort_by_key_Inr[OF a] by (simp add: get_completed_sections_def s)
  moreover have "set (glob_sections d) =
       {n. n \<in> fst ` set d \<and> prefix ''section-'' n \<and> suffix ''.md'' n \<and> 11 \<le> length n}"
    by (auto simp: glob_sections_def glob_match_def)
  ultimately show ?thesis using completed_key_any_width by simp
qed

theorem completed_sections_sorted_witness:
  "get_completed_sections
     (Some [(''section-10-z.md'', ''z''), (''index.md'', ''i''), (''section-2-b.md'', ''b''),
            (''section-02-c.txt'', ''c''), (''section-001-a.md'', ''a'')]) =
   Inr [''section-001-a'', ''section-2-b'', ''section-10-z''] \<and>
   map sort_number [''section-001-a'', ''section-2-b'', ''section-10-z''] = [1, 2, 10]"
proof -
  have g: "glob_sections [(''section-10-z.md'', ''z''), (''index.md'', ''i''), (''section-2-b.md'', ''b''),
            (''section-02-c.txt'', ''c''), (''section-001-a.md'', ''a'')] =
     [''section-10-z.md'', ''section-2-b.md'', ''section-001-a.md'']"
    by (simp add: progress_defs)
  have k: "list_all (\<lambda>n. completed_key (stem n) \<noteq> None)
     [''section-10-z.md'', ''section-2-b.md'', ''section-001-a.md'']"
    by (simp add: progress_defs eval_defs)
  have n: "map sort_number [''section-10-z'', ''section-2-b'', ''section-001-a''] = [10, 2, 1]"
    by (simp add: sort_number_def progress_defs eval_defs)
  have n': "map sort_number [''section-001-a'', ''section-2-b'', ''section-10-z''] = [1, 2, 10]"
    using n by simp
  show ?thesis
    using completed_sections_sorted[of "[(''section-10-z.md'', ''z''), (''index.md'', ''i''),
            (''section-2-b.md'', ''b''), (''section-02-c.txt'', ''c''), (''section-001-a.md'', ''a'')]"]
      k n n'
    unfolding g by (auto simp: stem_def)
qed

lemma missing_empty_iff:
  assumes "set completed \<subseteq> set defined" "distinct completed" "distinct defined"
  shows "filter (\<lambda>s. s \<notin> set completed) defined = [] \<longleftrightarrow> length completed = length defined"
    and "length completed \<le> length defined"
proof -
  have k: "length completed = card (set completed)" "length defined = card (set defined)"
    using assms(2,3) by (simp_all add: distinct_card)
  show "length completed \<le> length defined"
    unfolding k using assms(1) by (simp add: card_mono)
  have "filter (\<lambda>s. s \<notin> set completed) defined = [] \<longleftrightarrow> set defined \<subseteq> set completed"
    by (auto simp: filter_empty_conv)
  also have "\<dots> \<longleftrightarrow> set completed = set defined" using assms(1) by auto
  also have "\<dots> \<longleftrightarrow> card (set completed) = card (set defined)"
    using assms(1) by (metis card_subset_eq List.finite_set)
  finally show "filter (\<lambda>s. s \<notin> set completed) defined = [] \<longleftrightarrow>
      length completed = length defined"
    unfolding k .
qed

text \<open>
  C2, as stated, fails: with a valid index that defines one section, \<open>section-01-a\<close>,
  and the one artifact \<open>section-02-b.md\<close>, there are k = 1 completed artifacts and
  N = 1 defined sections, and the state is \<open>partial\<close>, with progress \<open>1/1\<close>.
\<close>

theorem partial_state_counterexample:
  "check_section_progress
     \<lparr>sections_entry = Some
        [(''index.md'', ''<!-- SECTION_MANIFEST'' @ [CHR 0x0A] @ ''section-01-a'' @ [CHR 0x0A]
                        @ ''END_MANIFEST -->''),
         (''section-02-b.md'', ''text'')]\<rparr> =
   Inr \<lparr>state = ''partial'', index_exists = True,
        defined_sections = [''section-01-a''],
        completed_sections = [''section-02-b''],
        missing_sections = [''section-01-a''],
        next_section = Some ''section-01-a'', progress = ''1/1'',
        index_format =
          \<lparr>fmt_exists = True, has_manifest = True, manifest_valid = True,
           fmt_sections = [''section-01-a''], fmt_error = None, fmt_warnings = []\<rparr>\<rparr>"
  by (simp add: progress_defs eval_defs)

text \<open>
  C2, amended. When \<open>check_section_progress\<close> returns with a valid index, with N defined
  sections and k completed artifacts: N is at least 1; the state is \<open>has_index\<close> exactly
  when k = 0, \<open>partial\<close> exactly when k is at least 1 and the missing list is not empty,
  and \<open>complete\<close> exactly when the missing list is empty and N is at least 1; when
  every completed artifact is a defined section (and the file names of the directory
  are distinct), k is at most N and the state is \<open>partial\<close> exactly when k is between 1
  and N - 1; the progress field is the text \<open>k/N\<close>.
\<close>

theorem progress_state_refinement:
  assumes "check_section_progress pd = Inr r" "manifest_valid (index_format r)"
  shows "1 \<le> length (defined_sections r) \<and>
    (state r = ''has_index'' \<longleftrightarrow> completed_sections r = []) \<and>
    (state r = ''partial'' \<longleftrightarrow> completed_sections r \<noteq> [] \<and> missing_sections r \<noteq> []) \<and>
    (state r = ''complete'' \<longleftrightarrow>
       missing_sections r = [] \<and> 1 \<le> length (defined_sections r)) \<and>
    (set (completed_sections r) \<subseteq> set (defined_sections r) \<and>
     distinct (map fst (the (sections_entry pd))) \<longrightarrow>
       length (completed_sections r) \<le> length (defined_sections r) \<and>
       (state r = ''partial'' \<longleftrightarrow>
          1 \<le> length (completed_sections r) \<and>
          length (completed_sections r) \<le> length (defined_sections r) - 1)) \<and>
    progress r = str_nat (length (completed_sections r)) @ ''/''
                 @ str_nat (length (defined_sections r))"
proof -
  note v = check_section_progress_valid[OF assms]
  note f = check_section_progress_fields[OF assms(1)]
  have d: "defined_sections r \<noteq> []" "distinct (defined_sections r)"
    using check_index_format_valid[OF v(3) assms(2)] f(1) by simp_all
  have st: "state r =
      (if completed_sections r = [] then ''has_index''
       else if missing_sections r \<noteq> [] then ''partial'' else ''complete'')"
    unfolding f(5) using v(1,2) assms(2) d(1) by simp
  have m: "missing_sections r = [] \<Longrightarrow> completed_sections r \<noteq> []"
    using d(1) unfolding f(2) by (cases "defined_sections r") (auto split: if_splits)
  have n: "1 \<le> length (defined_sections r)" using d(1) by (cases "defined_sections r") simp_all
  have p: "progress r = str_nat (length (completed_sections r)) @ ''/''
                 @ str_nat (length (defined_sections r))"
    unfolding f(4) using d(1) by simp
  have s1: "state r = ''has_index'' \<longleftrightarrow> completed_sections r = []"
    unfolding st by simp
  have s2: "state r = ''partial'' \<longleftrightarrow> completed_sections r \<noteq> [] \<and> missing_sections r \<noteq> []"
    unfolding st by simp
  have s3: "state r = ''complete'' \<longleftrightarrow>
       missing_sections r = [] \<and> 1 \<le> length (defined_sections r)"
    unfolding st using m n by auto
  have s4: "length (completed_sections r) \<le> length (defined_sections r) \<and>
       (state r = ''partial'' \<longleftrightarrow>
          1 \<le> length (completed_sections r) \<and>
          length (completed_sections r) \<le> length (defined_sections r) - 1)"
    if sub: "set (completed_sections r) \<subseteq> set (defined_sections r)"
      and dn: "distinct (map fst (the (sections_entry pd)))"
  proof -
    obtain dir where dir: "sections_entry pd = Some dir" using v(2) by auto
    have dc: "distinct (completed_sections r)"
      using get_completed_sections_distinct[of dir "completed_sections r"]
        check_section_progress_completed[OF assms(1)] dir dn by simp
    note me = missing_empty_iff[OF sub dc d(2)]
    have "completed_sections r \<noteq> [] \<longleftrightarrow> 1 \<le> length (completed_sections r)"
      by (cases "completed_sections r") simp_all
    moreover have "missing_sections r \<noteq> [] \<longleftrightarrow>
        length (completed_sections r) \<le> length (defined_sections r) - 1"
      using me n unfolding f(2) by arith
    ultimately show ?thesis using s2 me(2) by simp
  qed
  show ?thesis using n s1 s2 s3 s4 p by blast
qed

theorem progress_state_refinement_witness:
  "\<exists>r. check_section_progress
     \<lparr>sections_entry = Some
        [(''index.md'', ''<!-- SECTION_MANIFEST'' @ [CHR 0x0A] @ ''section-01-a'' @ [CHR 0x0A]
                        @ ''section-02-b'' @ [CHR 0x0A] @ ''END_MANIFEST -->''),
         (''section-01-a.md'', ''text'')]\<rparr> = Inr r \<and>
     manifest_valid (index_format r) \<and> state r = ''partial'' \<and> progress r = ''1/2'' \<and>
     length (completed_sections r) = 1 \<and> length (defined_sections r) = 2"
proof -
  have e: "check_section_progress
     \<lparr>sections_entry = Some
        [(''index.md'', ''<!-- SECTION_MANIFEST'' @ [CHR 0x0A] @ ''section-01-a'' @ [CHR 0x0A]
                        @ ''section-02-b'' @ [CHR 0x0A] @ ''END_MANIFEST -->''),
         (''section-01-a.md'', ''text'')]\<rparr> =
   Inr \<lparr>state = ''partial'', index_exists = True,
        defined_sections = [''section-01-a'', ''section-02-b''],
        completed_sections = [''section-01-a''],
        missing_sections = [''section-02-b''],
        next_section = Some ''section-02-b'', progress = ''1/2'',
        index_format =
          \<lparr>fmt_exists = True, has_manifest = True, manifest_valid = True,
           fmt_sections = [''section-01-a'', ''section-02-b''], fmt_error = None,
           fmt_warnings = []\<rparr>\<rparr>"
    by (simp add: progress_defs eval_defs)
  show ?thesis using progress_state_refinement[OF e] e by simp
qed

section \<open>Properties of step inference\<close>

lemma infer_resume_step_no_index:
  "\<not> sections_index files \<Longrightarrow>
     infer_resume_step files sp = (Some 18, ''section files exist but no index'') \<longleftrightarrow>
       section_files files \<noteq> []"
  by (simp add: infer_resume_step_def)

lemma infer_resume_step_plan_beats_interview:
  "plan files \<Longrightarrow> fst (infer_resume_step files sp) \<noteq> Some 10"
  by (simp add: infer_resume_step_def)

lemma infer_resume_step_plan:
  "plan files \<Longrightarrow> \<not> sections_index files \<Longrightarrow> section_files files = [] \<Longrightarrow>
   \<not> plan_tdd files \<Longrightarrow> \<not> integration_notes files \<Longrightarrow> reviews files = [] \<Longrightarrow>
     infer_resume_step files sp = (Some 12, ''implementation plan complete'')"
  by (simp add: infer_resume_step_def)

text \<open>
  C3. \<open>infer_resume_step\<close> returns step 18 with the label "section files exist but no
  index" although an index is present: the sections directory holds an \<open>index.md\<close>
  without a manifest block and one section file, so the progress state is
  \<open>invalid_index\<close>, the first \<open>if\<close> returns nothing and control reaches the check of the
  section files.
\<close>

theorem invalid_index_reports_no_index:
  "map_sum id
     (infer_resume_step
        \<lparr>research = False, interview = False, spec = False, plan = False,
         integration_notes = False, plan_tdd = False, reviews = [],
         section_files = [''section-01-a.md''], sections_index = True\<rparr>)
     (check_section_progress
        \<lparr>sections_entry = Some
           [(''index.md'', ''# Index''), (''section-01-a.md'', ''text'')]\<rparr>) =
   Inr (Some 18, ''section files exist but no index'')"
  by (simp add: progress_defs eval_defs infer_resume_step_def)

text \<open>
  So the result with step 18 and this label is not confined to the inputs with section
  files and no index.
\<close>

theorem invalid_index_reports_no_index_witness:
  "\<not> (\<forall>files sp.
        infer_resume_step files sp = (Some 18, ''section files exist but no index'') \<longleftrightarrow>
          section_files files \<noteq> [] \<and> \<not> sections_index files)"
proof
  assume a: "\<forall>files sp.
        infer_resume_step files sp = (Some 18, ''section files exist but no index'') \<longleftrightarrow>
          section_files files \<noteq> [] \<and> \<not> sections_index files"
  let ?files = "\<lparr>research = False, interview = False, spec = False, plan = False,
         integration_notes = False, plan_tdd = False, reviews = [],
         section_files = [''section-01-a.md''], sections_index = True\<rparr>"
  obtain sp where "infer_resume_step ?files sp = (Some 18, ''section files exist but no index'')"
    using invalid_index_reports_no_index
    by (cases "check_section_progress
        \<lparr>sections_entry = Some
           [(''index.md'', ''# Index''), (''section-01-a.md'', ''text'')]\<rparr>") simp_all
  then have "\<not> sections_index ?files" using a by blast
  then show False by simp
qed

end
